theory Spec2Isabelle
  imports Main "HOL-Library.AList" "HOL-Library.Sublist"
begin

section \<open>Python values used by the program\<close>

text \<open>
  A Python \<open>dict\<close> keeps its keys in insertion order and holds each key once. It is
  modelled as an association list: \<open>d[k] = v\<close> is \<^const>\<open>AList.update\<close> (the value is
  replaced in place when the key is present, the pair is appended otherwise),
  \<open>del d[k]\<close> is \<^const>\<open>AList.delete\<close>, \<open>k in d\<close> is membership in the keys and
  \<open>d[k]\<close> is \<^const>\<open>map_of\<close>.
\<close>

type_synonym ('k, 'v) dict = "('k \<times> 'v) list"

text \<open>
  The value \<open>json.loads\<close> returns: \<open>None\<close>, a bool, a number, a \<open>str\<close>, a \<open>list\<close> or
  a \<open>dict\<close> with \<open>str\<close> keys. Numbers are never inspected by the program, so one
  constructor stands for them.
\<close>

datatype json =
    JNull
  | JBool bool
  | JNum int
  | JStr string
  | JArr "json list"
  | JObj "(string, json) dict"

datatype py_error = KeyError | TypeError

text \<open>\<open>k in v\<close> for a \<open>str\<close> key \<open>k\<close>: key membership on a dict, element membership on
  a list, substring test on a string, \<open>TypeError\<close> on anything else.\<close>

fun py_in :: "string \<Rightarrow> json \<Rightarrow> py_error + bool" where
  "py_in k (JObj d) = Inr (k \<in> set (map fst d))"
| "py_in k (JArr xs) = Inr (JStr k \<in> set xs)"
| "py_in k (JStr s) = Inr (sublist k s)"
| "py_in k JNull = Inl TypeError"
| "py_in k (JBool b) = Inl TypeError"
| "py_in k (JNum n) = Inl TypeError"

text \<open>\<open>v[k]\<close> for a \<open>str\<close> key: only a dict can be subscripted by a string.\<close>

fun py_getitem :: "json \<Rightarrow> string \<Rightarrow> py_error + json" where
  "py_getitem (JObj d) k = (case map_of d k of None \<Rightarrow> Inl KeyError | Some v \<Rightarrow> Inr v)"
| "py_getitem JNull k = Inl TypeError"
| "py_getitem (JBool b) k = Inl TypeError"
| "py_getitem (JNum n) k = Inl TypeError"
| "py_getitem (JStr s) k = Inl TypeError"
| "py_getitem (JArr xs) k = Inl TypeError"

text \<open>\<open>del v[k]\<close> for a \<open>str\<close> key.\<close>

fun py_delitem :: "json \<Rightarrow> string \<Rightarrow> py_error + json" where
  "py_delitem (JObj d) k =
     (if k \<in> set (map fst d) then Inr (JObj (AList.delete k d)) else Inl KeyError)"
| "py_delitem JNull k = Inl TypeError"
| "py_delitem (JBool b) k = Inl TypeError"
| "py_delitem (JNum n) k = Inl TypeError"
| "py_delitem (JStr s) k = Inl TypeError"
| "py_delitem (JArr xs) k = Inl TypeError"

text \<open>\<open>v[k] = x\<close> for a \<open>str\<close> key.\<close>

fun py_setitem :: "json \<Rightarrow> string \<Rightarrow> json \<Rightarrow> py_error + json" where
  "py_setitem (JObj d) k x = Inr (JObj (AList.update k x d))"
| "py_setitem JNull k x = Inl TypeError"
| "py_setitem (JBool b) k x = Inl TypeError"
| "py_setitem (JNum n) k x = Inl TypeError"
| "py_setitem (JStr s) k x = Inl TypeError"
| "py_setitem (JArr xs) k x = Inl TypeError"

text \<open>What \<open>for x in v\<close> iterates over: the elements of a list, the keys of a dict, the
  one-character strings of a string.\<close>

fun py_iter :: "json \<Rightarrow> py_error + json list" where
  "py_iter (JArr xs) = Inr xs"
| "py_iter (JObj d) = Inr (map (\<lambda>kv. JStr (fst kv)) d)"
| "py_iter (JStr s) = Inr (map (\<lambda>c. JStr [c]) s)"
| "py_iter JNull = Inl TypeError"
| "py_iter (JBool b) = Inl TypeError"
| "py_iter (JNum n) = Inl TypeError"

section \<open>The migration \<open>04_switch_to_plugins\<close>\<close>

definition PLUGIN_PATH :: string where
  "PLUGIN_PATH = ''plugins.craigslist.plugin:CraigslistPlugin''"

text \<open>
  Both loops of the migration run the same three statements on a search spec:
  \<^verbatim>\<open>
  if "source" not in spec: continue
  del spec["source"]
  spec["plugin_path"] = "plugins.craigslist.plugin:CraigslistPlugin"
  \<close>
  \<open>convert_spec\<close> is that block: \<open>None\<close> when the loop continues without touching the
  spec, the mutated spec otherwise.
\<close>

definition convert_spec :: "json \<Rightarrow> py_error + json option" where
  "convert_spec spec =
     (case py_in ''source'' spec of
        Inl e \<Rightarrow> Inl e
      | Inr False \<Rightarrow> Inr None
      | Inr True \<Rightarrow>
          (case py_delitem spec ''source'' of
             Inl e \<Rightarrow> Inl e
           | Inr spec1 \<Rightarrow>
               (case py_setitem spec1 ''plugin_path'' (JStr PLUGIN_PATH) of
                  Inl e \<Rightarrow> Inl e
                | Inr spec2 \<Rightarrow> Inr (Some spec2))))"

text \<open>The spec is mutated in place, so the object that holds it under a key sees the new
  value under the same key.\<close>

fun mutated_at :: "json \<Rightarrow> string \<Rightarrow> json \<Rightarrow> json" where
  "mutated_at (JObj d) k x = JObj (AList.update k x d)"
| "mutated_at v k x = v"

text \<open>One pass of the inner loop of \<open>update_notifiers\<close> over a search: the search as it
  is afterwards, and whether it was updated.\<close>

definition update_search :: "json \<Rightarrow> py_error + (json \<times> bool)" where
  "update_search search =
     (case py_getitem search ''spec'' of
        Inl e \<Rightarrow> Inl e
      | Inr spec \<Rightarrow>
          (case convert_spec spec of
             Inl e \<Rightarrow> Inl e
           | Inr None \<Rightarrow> Inr (search, False)
           | Inr (Some spec') \<Rightarrow> Inr (mutated_at search ''spec'' spec', True)))"

text \<open>The inner loop: the searches afterwards and how many were updated. An exception
  leaves the loop at once.\<close>

fun update_searches :: "json list \<Rightarrow> py_error + (json list \<times> nat)" where
  "update_searches [] = Inr ([], 0)"
| "update_searches (search # rest) =
     (case update_search search of
        Inl e \<Rightarrow> Inl e
      | Inr (search', updated) \<Rightarrow>
          (case update_searches rest of
             Inl e \<Rightarrow> Inl e
           | Inr (rest', n) \<Rightarrow> Inr (search' # rest', (if updated then 1 else 0) + n)))"

text \<open>The iterated object after the loop: a list holds the mutated searches; the keys of
  a dict and the characters of a string are fresh strings the loop cannot mutate.\<close>

fun iterated_back :: "json \<Rightarrow> json list \<Rightarrow> json" where
  "iterated_back (JArr xs) items = JArr items"
| "iterated_back v items = v"

text \<open>The body of the outer loop for one notifier row, on the value of its
  \<open>config_json\<close>: the value stored afterwards (written only when \<open>updated\<close> is set) and
  the number of searches updated.\<close>

definition update_notifier :: "json \<Rightarrow> py_error + (json \<times> nat)" where
  "update_notifier notifier_json =
     (case py_getitem notifier_json ''active_searches'' of
        Inl e \<Rightarrow> Inl e
      | Inr searches \<Rightarrow>
          (case py_iter searches of
             Inl e \<Rightarrow> Inl e
           | Inr items \<Rightarrow>
               (case update_searches items of
                  Inl e \<Rightarrow> Inl e
                | Inr (items', n) \<Rightarrow>
                    Inr (if 0 < n
                         then mutated_at notifier_json ''active_searches''
                                (iterated_back searches items')
                         else notifier_json, n))))"

fun update_notifier_rows :: "json list \<Rightarrow> py_error + (json list \<times> nat)" where
  "update_notifier_rows [] = Inr ([], 0)"
| "update_notifier_rows (row # rows) =
     (case update_notifier row of
        Inl e \<Rightarrow> Inl e
      | Inr (row', n) \<Rightarrow>
          (case update_notifier_rows rows of
             Inl e \<Rightarrow> Inl e
           | Inr (rows', m) \<Rightarrow> Inr (row' # rows', n + m)))"

text \<open>The body of the loop of \<open>update_listings\<close> for one listing row, on the value of
  its \<open>search_spec_json\<close>.\<close>

definition update_listing :: "json \<Rightarrow> py_error + (json \<times> nat)" where
  "update_listing search_spec_json =
     (case convert_spec search_spec_json of
        Inl e \<Rightarrow> Inl e
      | Inr None \<Rightarrow> Inr (search_spec_json, 0)
      | Inr (Some spec') \<Rightarrow> Inr (spec', 1))"

fun update_listing_rows :: "json list \<Rightarrow> py_error + (json list \<times> nat)" where
  "update_listing_rows [] = Inr ([], 0)"
| "update_listing_rows (row # rows) =
     (case update_listing row of
        Inl e \<Rightarrow> Inl e
      | Inr (row', n) \<Rightarrow>
          (case update_listing_rows rows of
             Inl e \<Rightarrow> Inl e
           | Inr (rows', m) \<Rightarrow> Inr (row' # rows', n + m)))"

text \<open>The database as the migration sees it: the \<open>config_json\<close> of every notifier row
  and the \<open>search_spec_json\<close> of every listing row, each as the value \<open>json.loads\<close>
  returns for it. \<open>session.commit()\<close> runs after the loop, so an exception inside the
  loop leaves the stored rows as they were.\<close>

record database =
  notifiers :: "json list"
  listings :: "json list"

definition update_notifiers :: "database \<Rightarrow> py_error + (database \<times> nat)" where
  "update_notifiers db =
     (case update_notifier_rows (notifiers db) of
        Inl e \<Rightarrow> Inl e
      | Inr (rows', updated_count) \<Rightarrow> Inr (db\<lparr>notifiers := rows'\<rparr>, updated_count))"

definition update_listings :: "database \<Rightarrow> py_error + (database \<times> nat)" where
  "update_listings db =
     (case update_listing_rows (listings db) of
        Inl e \<Rightarrow> Inl e
      | Inr (rows', updated_listing_count) \<Rightarrow>
          Inr (db\<lparr>listings := rows'\<rparr>, updated_listing_count))"

text \<open>\<open>main\<close>: the database afterwards, and either the exception that ended the run or
  the two counts printed.\<close>

definition main :: "database \<Rightarrow> database \<times> (py_error + nat \<times> nat)" where
  "main db =
     (case update_notifiers db of
        Inl e \<Rightarrow> (db, Inl e)
      | Inr (db1, n) \<Rightarrow>
          (case update_listings db1 of
             Inl e \<Rightarrow> (db1, Inl e)
           | Inr (db2, m) \<Rightarrow> (db2, Inr (n, m))))"

text \<open>What a stored spec holds once the block has run on it.\<close>

definition converted_value :: "json \<Rightarrow> json" where
  "converted_value spec = (case convert_spec spec of Inr (Some spec') \<Rightarrow> spec' | _ \<Rightarrow> spec)"

text \<open>Reading the stored rows: the spec a search holds, the specs of a notifier's
  active searches (when the row has the layout the migration expects: a dict whose
  \<open>active_searches\<close> is a list of dicts, each with a dict under \<open>spec\<close>), and whether
  a listing's spec is a dict.\<close>

fun the_spec :: "json \<Rightarrow> json option" where
  "the_spec (JObj d) = (case map_of d ''spec'' of Some (JObj s) \<Rightarrow> Some (JObj s) | _ \<Rightarrow> None)"
| "the_spec v = None"

fun active_search_specs :: "json \<Rightarrow> json list option" where
  "active_search_specs (JObj d) =
     (case map_of d ''active_searches'' of Some (JArr xs) \<Rightarrow> those (map the_spec xs) | _ \<Rightarrow> None)"
| "active_search_specs v = None"

fun is_dict :: "json \<Rightarrow> bool" where
  "is_dict (JObj d) = True"
| "is_dict v = False"


subsection \<open>Example rows\<close>

definition old_spec :: "(string, json) dict" where
  "old_spec = [(''source'', JStr ''craigslist''), (''query'', JStr ''couch'')]"

definition new_spec :: "(string, json) dict" where
  "new_spec = [(''query'', JStr ''bike''), (''plugin_path'', JStr ''plugins.other:Other'')]"

definition db_before :: database where
  "db_before =
     \<lparr>notifiers =
        [JObj [(''channel_id'', JNum 7),
               (''active_searches'',
                JArr [JObj [(''name'', JStr ''couch''), (''spec'', JObj old_spec)],
                      JObj [(''name'', JStr ''bike''), (''spec'', JObj new_spec)]])]],
      listings = [JObj old_spec, JObj new_spec]\<rparr>"

definition old_spec_converted :: "(string, json) dict" where
  "old_spec_converted =
     [(''query'', JStr ''couch''),
      (''plugin_path'', JStr ''plugins.craigslist.plugin:CraigslistPlugin'')]"

definition db_after :: database where
  "db_after =
     \<lparr>notifiers =
        [JObj [(''channel_id'', JNum 7),
               (''active_searches'',
                JArr [JObj [(''name'', JStr ''couch''), (''spec'', JObj old_spec_converted)],
                      JObj [(''name'', JStr ''bike''), (''spec'', JObj new_spec)]])]],
      listings = [JObj old_spec_converted, JObj new_spec]\<rparr>"


subsection \<open>Properties of the migration\<close>

lemma convert_spec_SomeD:
  "convert_spec s = Inr (Some s') \<Longrightarrow>
     \<exists>d. s = JObj d \<and> ''source'' \<in> set (map fst d) \<and>
         s' = JObj (AList.update ''plugin_path'' (JStr PLUGIN_PATH) (AList.delete ''source'' d))"
  by (cases s) (auto simp: convert_spec_def split: if_splits sum.splits bool.splits)

lemma convert_spec_source:
  "''source'' \<in> set (map fst d) \<Longrightarrow>
     convert_spec (JObj d) =
       Inr (Some (JObj (AList.update ''plugin_path'' (JStr PLUGIN_PATH) (AList.delete ''source'' d))))"
  by (simp add: convert_spec_def)

lemma convert_spec_no_source:
  "''source'' \<notin> set (map fst d) \<Longrightarrow> convert_spec (JObj d) = Inr None"
  by (simp add: convert_spec_def)

lemma source_not_in_converted:
  "''source'' \<notin> set (map fst (AList.update ''plugin_path'' v (AList.delete ''source'' d)))"
  using AList.delete_notin_dom [of "''source''" d]
  by (simp add: AList.dom_update)

lemma convert_spec_again:
  "convert_spec s = Inr (Some s') \<Longrightarrow> convert_spec s' = Inr None"
proof -
  assume "convert_spec s = Inr (Some s')"
  then obtain d where
    "s' = JObj (AList.update ''plugin_path'' (JStr PLUGIN_PATH) (AList.delete ''source'' d))"
    by (blast dest: convert_spec_SomeD)
  then show ?thesis
    using source_not_in_converted [of "JStr PLUGIN_PATH" d] by (simp add: convert_spec_no_source)
qed

lemma update_search_again:
  "update_search s = Inr (s', u) \<Longrightarrow> update_search s' = Inr (s', False)"
proof (cases s)
  case (JObj d)
  assume a: "update_search s = Inr (s', u)"
  show ?thesis
  proof (cases "map_of d ''spec''")
    case None
    with a JObj show ?thesis by (simp add: update_search_def)
  next
    case (Some spec)
    show ?thesis
    proof (cases "convert_spec spec")
      case (Inl e)
      with a JObj Some show ?thesis by (simp add: update_search_def)
    next
      case (Inr r)
      show ?thesis
      proof (cases r)
        case None
        with a JObj Some Inr show ?thesis by (auto simp: update_search_def)
      next
        case (Some spec')
        with Inr have "convert_spec spec' = Inr None" by (simp add: convert_spec_again)
        with a JObj \<open>map_of d ''spec'' = Some spec\<close> Inr Some show ?thesis
          by (auto simp: update_search_def AList.update_conv')
      qed
    qed
  qed
qed (simp_all add: update_search_def)

lemma update_searches_again:
  "update_searches xs = Inr (xs', n) \<Longrightarrow> update_searches xs' = Inr (xs', 0)"
proof (induction xs arbitrary: xs' n)
  case Nil
  then show ?case by simp
next
  case (Cons x xs)
  then show ?case
    by (auto split: sum.splits prod.splits dest: update_search_again)
qed

lemma update_searches_strings:
  "update_searches (map (\<lambda>x. JStr (f x)) xs) = Inr r \<Longrightarrow> xs = []"
  by (cases xs) (simp_all add: update_search_def)

lemma update_searches_not_list:
  assumes "py_iter v = Inr items" "update_searches items = Inr (items', n)" "\<forall>xs. v \<noteq> JArr xs"
  shows "n = 0"
proof (cases v)
  case (JStr s)
  with assms(1) have "items = map (\<lambda>c. JStr [c]) s" by simp
  with assms(2) have "s = []" using update_searches_strings [of "\<lambda>c. [c]" s] by simp
  with \<open>items = _\<close> assms(2) show ?thesis by simp
next
  case (JObj d)
  with assms(1) have "items = map (\<lambda>kv. JStr (fst kv)) d" by simp
  with assms(2) have "d = []" using update_searches_strings [of fst d] by simp
  with \<open>items = _\<close> assms(2) show ?thesis by simp
qed (use assms in simp_all)

lemma update_notifier_again:
  assumes "update_notifier c = Inr (c', n)"
  shows "update_notifier c' = Inr (c', 0)"
proof (cases "0 < n")
  case False
  with assms show ?thesis
    by (auto simp: update_notifier_def split: sum.splits prod.splits)
next
  case True
  from assms obtain d where c: "c = JObj d"
    by (cases c) (simp_all add: update_notifier_def)
  from assms c obtain searches where s: "map_of d ''active_searches'' = Some searches"
    by (cases "map_of d ''active_searches''") (simp_all add: update_notifier_def)
  from assms c s obtain items where i: "py_iter searches = Inr items"
    by (cases "py_iter searches") (simp_all add: update_notifier_def)
  from assms c s i obtain items' where u: "update_searches items = Inr (items', n)"
    by (cases "update_searches items") (auto simp: update_notifier_def split: if_splits)
  from i u True obtain xs where xs: "searches = JArr xs"
    using update_searches_not_list [of searches items items' n] by auto
  with i have "items = xs" by simp
  from assms c s i u True xs
  have c': "c' = JObj (AList.update ''active_searches'' (JArr items') d)"
    by (simp add: update_notifier_def)
  from u have "update_searches items' = Inr (items', 0)" by (rule update_searches_again)
  with c' show ?thesis by (simp add: update_notifier_def AList.update_conv')
qed

lemma update_notifier_rows_again:
  "update_notifier_rows rs = Inr (rs', n) \<Longrightarrow> update_notifier_rows rs' = Inr (rs', 0)"
proof (induction rs arbitrary: rs' n)
  case Nil
  then show ?case by simp
next
  case (Cons r rs)
  then show ?case
    by (auto split: sum.splits prod.splits dest: update_notifier_again)
qed

lemma update_listing_again:
  "update_listing s = Inr (s', n) \<Longrightarrow> update_listing s' = Inr (s', 0)"
  by (auto simp: update_listing_def split: sum.splits option.splits dest: convert_spec_again)

lemma update_listing_rows_again:
  "update_listing_rows rs = Inr (rs', n) \<Longrightarrow> update_listing_rows rs' = Inr (rs', 0)"
proof (induction rs arbitrary: rs' n)
  case Nil
  then show ?case by simp
next
  case (Cons r rs)
  then show ?case
    by (auto split: sum.splits prod.splits dest: update_listing_again)
qed

lemma converted_value_source:
  "''source'' \<in> set (map fst d) \<Longrightarrow>
     converted_value (JObj d) =
       JObj (AList.update ''plugin_path'' (JStr PLUGIN_PATH) (AList.delete ''source'' d))"
  by (simp add: converted_value_def convert_spec_source)

lemma converted_value_no_source:
  "''source'' \<notin> set (map fst d) \<Longrightarrow> converted_value (JObj d) = JObj d"
  by (simp add: converted_value_def convert_spec_no_source)

lemma convert_spec_dict:
  "convert_spec (JObj d) = Inr (if ''source'' \<in> set (map fst d)
      then Some (converted_value (JObj d)) else None)"
  by (simp add: converted_value_source convert_spec_source convert_spec_no_source)

lemma update_search_spec:
  assumes "the_spec s = Some sp"
  shows "\<exists>s' u. update_search s = Inr (s', u) \<and> the_spec s' = Some (converted_value sp)"
proof -
  from assms obtain d sd where s: "s = JObj d" and m: "map_of d ''spec'' = Some (JObj sd)"
    and sp: "sp = JObj sd"
    by (cases s) (auto split: option.splits json.splits)
  show ?thesis
  proof (cases "''source'' \<in> set (map fst sd)")
    case True
    then obtain sd' where "converted_value (JObj sd) = JObj sd'"
      by (simp add: converted_value_source)
    with True s m sp show ?thesis
      by (auto simp: update_search_def convert_spec_dict AList.update_conv')
  next
    case False
    with s m sp show ?thesis
      by (auto simp: update_search_def convert_spec_dict converted_value_no_source)
  qed
qed

lemma update_searches_specs:
  "those (map the_spec xs) = Some specs \<Longrightarrow>
     \<exists>xs' n. update_searches xs = Inr (xs', n) \<and>
       those (map the_spec xs') = Some (map converted_value specs)"
proof (induction xs arbitrary: specs)
  case Nil
  then show ?case by simp
next
  case (Cons x xs)
  from Cons.prems obtain sp rest where x: "the_spec x = Some sp"
    and r: "those (map the_spec xs) = Some rest" and specs: "specs = sp # rest"
    by (auto split: option.splits)
  from update_search_spec [OF x] obtain x' u where
    x': "update_search x = Inr (x', u)" "the_spec x' = Some (converted_value sp)" by blast
  from Cons.IH [OF r] obtain xs' n where
    xs': "update_searches xs = Inr (xs', n)"
    "those (map the_spec xs') = Some (map converted_value rest)" by blast
  from x' xs' specs show ?case by simp
qed

lemma update_search_untouched:
  "update_search s = Inr (s', False) \<Longrightarrow> s' = s"
  by (auto simp: update_search_def split: sum.splits option.splits)

lemma update_searches_untouched:
  "update_searches xs = Inr (xs', 0) \<Longrightarrow> xs' = xs"
proof (induction xs arbitrary: xs')
  case Nil
  then show ?case by simp
next
  case (Cons x xs)
  then show ?case
    by (auto split: sum.splits prod.splits if_splits dest: update_search_untouched)
qed

lemma update_notifier_specs:
  assumes "active_search_specs c = Some specs"
  shows "\<exists>c' n. update_notifier c = Inr (c', n) \<and>
           active_search_specs c' = Some (map converted_value specs)"
proof -
  from assms obtain d xs where c: "c = JObj d"
    and m: "map_of d ''active_searches'' = Some (JArr xs)"
    and t: "those (map the_spec xs) = Some specs"
    by (cases c) (auto split: option.splits json.splits)
  from update_searches_specs [OF t] obtain xs' n where
    u: "update_searches xs = Inr (xs', n)"
    and t': "those (map the_spec xs') = Some (map converted_value specs)" by blast
  show ?thesis
  proof (cases "0 < n")
    case True
    with c m u t' show ?thesis
      by (simp add: update_notifier_def AList.update_conv')
  next
    case False
    with u have "xs' = xs" by (simp add: update_searches_untouched)
    with False c m u t' show ?thesis
      by (simp add: update_notifier_def)
  qed
qed

lemma update_notifier_rows_specs:
  "those (map active_search_specs rows) = Some specss \<Longrightarrow>
     \<exists>rows' n. update_notifier_rows rows = Inr (rows', n) \<and>
       those (map active_search_specs rows') = Some (map (map converted_value) specss)"
proof (induction rows arbitrary: specss)
  case Nil
  then show ?case by simp
next
  case (Cons r rows)
  from Cons.prems obtain sp rest where x: "active_search_specs r = Some sp"
    and r: "those (map active_search_specs rows) = Some rest" and specs: "specss = sp # rest"
    by (auto split: option.splits)
  from update_notifier_specs [OF x] obtain r' k where
    r': "update_notifier r = Inr (r', k)"
    "active_search_specs r' = Some (map converted_value sp)" by blast
  from Cons.IH [OF r] obtain rows' n where
    rows': "update_notifier_rows rows = Inr (rows', n)"
    "those (map active_search_specs rows') = Some (map (map converted_value) rest)" by blast
  from r' rows' specs show ?case by simp
qed

lemma update_listing_dict:
  "is_dict s \<Longrightarrow> \<exists>n. update_listing s = Inr (converted_value s, n)"
  by (cases s) (simp_all add: update_listing_def convert_spec_dict converted_value_no_source)

lemma update_listing_rows_dicts:
  "list_all is_dict rows \<Longrightarrow>
     \<exists>n. update_listing_rows rows = Inr (map converted_value rows, n)"
proof (induction rows)
  case Nil
  then show ?case by simp
next
  case (Cons r rows)
  then obtain k n where "update_listing r = Inr (converted_value r, k)"
    "update_listing_rows rows = Inr (map converted_value rows, n)"
    using update_listing_dict [of r] by auto
  then show ?case by simp
qed

lemma plugin_path_shape:
  "\<exists>ns sym. PLUGIN_PATH = ns @ '':'' @ sym \<and> ns \<noteq> [] \<and> sym \<noteq> [] \<and>
     CHR '':'' \<notin> set ns \<and> CHR '':'' \<notin> set sym"
  unfolding PLUGIN_PATH_def
  by (rule exI [of _ "''plugins.craigslist.plugin''"], rule exI [of _ "''CraigslistPlugin''"]) simp

lemmas migration_defs =
  main_def update_notifiers_def update_listings_def update_notifier_def
  update_listing_def update_search_def convert_spec_def PLUGIN_PATH_def converted_value_def
  old_spec_def new_spec_def db_before_def db_after_def old_spec_converted_def



text \<open>
  Claim C8. The migration converts every stored search spec of the prior schema: on a spec
  (a dict) with a \<open>source\<close> key the block succeeds, the spec afterwards has no \<open>source\<close>
  key, holds \<open>plugins.craigslist.plugin:CraigslistPlugin\<close> under \<open>plugin_path\<close> and
  keeps every other key; a spec without a \<open>source\<close> key is left as it is. On a database
  whose notifier rows and listing rows have the expected layout, \<open>main\<close> ends without an
  exception, and afterwards every spec of every notifier's active searches and every
  listing's spec is the converted value of the spec stored before. The plugin path is a
  non-empty namespace, a colon and a non-empty symbol.
\<close>

theorem migration_converts:
  "(''source'' \<in> set (map fst d) \<longrightarrow>
      (\<exists>d'. convert_spec (JObj d) = Inr (Some (JObj d')) \<and>
         converted_value (JObj d) = JObj d' \<and>
         ''source'' \<notin> set (map fst d') \<and>
         map_of d' ''plugin_path'' = Some (JStr ''plugins.craigslist.plugin:CraigslistPlugin'') \<and>
         (\<forall>k. k \<noteq> ''source'' \<and> k \<noteq> ''plugin_path'' \<longrightarrow> map_of d' k = map_of d k))) \<and>
   (''source'' \<notin> set (map fst d) \<longrightarrow>
      convert_spec (JObj d) = Inr None \<and> converted_value (JObj d) = JObj d) \<and>
   (those (map active_search_specs (notifiers db)) = Some specss \<and>
    list_all is_dict (listings db) \<longrightarrow>
      (\<exists>db' n m. main db = (db', Inr (n, m)) \<and>
         those (map active_search_specs (notifiers db')) =
           Some (map (map converted_value) specss) \<and>
         listings db' = map converted_value (listings db))) \<and>
   (\<exists>ns sym. PLUGIN_PATH = ns @ '':'' @ sym \<and> ns \<noteq> [] \<and> sym \<noteq> [] \<and>
      CHR '':'' \<notin> set ns \<and> CHR '':'' \<notin> set sym)"
proof (intro conjI impI)
  assume src: "''source'' \<in> set (map fst d)"
  let ?d' = "AList.update ''plugin_path'' (JStr PLUGIN_PATH) (AList.delete ''source'' d)"
  have "convert_spec (JObj d) = Inr (Some (JObj ?d'))" using src by (rule convert_spec_source)
  moreover have "converted_value (JObj d) = JObj ?d'" using src by (rule converted_value_source)
  moreover have "''source'' \<notin> set (map fst ?d')" by (rule source_not_in_converted)
  moreover have "map_of ?d' ''plugin_path'' = Some (JStr ''plugins.craigslist.plugin:CraigslistPlugin'')"
    by (simp add: AList.update_conv' PLUGIN_PATH_def)
  moreover have "\<forall>k. k \<noteq> ''source'' \<and> k \<noteq> ''plugin_path'' \<longrightarrow> map_of ?d' k = map_of d k"
    by (simp add: AList.update_conv' AList.delete_conv')
  ultimately show "\<exists>d'. convert_spec (JObj d) = Inr (Some (JObj d')) \<and>
         converted_value (JObj d) = JObj d' \<and>
         ''source'' \<notin> set (map fst d') \<and>
         map_of d' ''plugin_path'' = Some (JStr ''plugins.craigslist.plugin:CraigslistPlugin'') \<and>
         (\<forall>k. k \<noteq> ''source'' \<and> k \<noteq> ''plugin_path'' \<longrightarrow> map_of d' k = map_of d k)"
    by blast
next
  assume "''source'' \<notin> set (map fst d)"
  then show "convert_spec (JObj d) = Inr None" by (rule convert_spec_no_source)
next
  assume "''source'' \<notin> set (map fst d)"
  then show "converted_value (JObj d) = JObj d" by (rule converted_value_no_source)
next
  assume a: "those (map active_search_specs (notifiers db)) = Some specss \<and>
    list_all is_dict (listings db)"
  then obtain rows1 n where n: "update_notifier_rows (notifiers db) = Inr (rows1, n)"
    "those (map active_search_specs rows1) = Some (map (map converted_value) specss)"
    using update_notifier_rows_specs [of "notifiers db" specss] by blast
  from a obtain m where
    m: "update_listing_rows (listings db) = Inr (map converted_value (listings db), m)"
    using update_listing_rows_dicts [of "listings db"] by blast
  let ?db' = "db\<lparr>notifiers := rows1, listings := map converted_value (listings db)\<rparr>"
  from n m have "main db = (?db', Inr (n, m))"
    by (simp add: main_def update_notifiers_def update_listings_def)
  with n(2) show "\<exists>db' n m. main db = (db', Inr (n, m)) \<and>
         those (map active_search_specs (notifiers db')) =
           Some (map (map converted_value) specss) \<and>
         listings db' = map converted_value (listings db)"
    by simp
next
  show "\<exists>ns sym. PLUGIN_PATH = ns @ '':'' @ sym \<and> ns \<noteq> [] \<and> sym \<noteq> [] \<and>
      CHR '':'' \<notin> set ns \<and> CHR '':'' \<notin> set sym"
    by (rule plugin_path_shape)
qed


theorem migration_converts_witness:
  "''source'' \<in> set (map fst old_spec) \<and>
   ''source'' \<notin> set (map fst new_spec) \<and>
   those (map active_search_specs (notifiers db_before)) = Some [[JObj old_spec, JObj new_spec]] \<and>
   list_all is_dict (listings db_before) \<and>
   convert_spec (JObj old_spec) = Inr (Some (JObj old_spec_converted)) \<and>
   convert_spec (JObj new_spec) = Inr None \<and>
   main db_before = (db_after, Inr (1, 1)) \<and>
   those (map active_search_specs (notifiers db_after)) =
     Some [[JObj old_spec_converted, JObj new_spec]] \<and>
   listings db_after = [JObj old_spec_converted, JObj new_spec]"
  using migration_converts [of old_spec db_before "[[JObj old_spec, JObj new_spec]]"]
    migration_converts [of new_spec db_before "[[JObj old_spec, JObj new_spec]]"]
  by (simp add: migration_defs)


text \<open>
  Claim C10. The block is idempotent: a spec it has converted is one it leaves alone. So
  when a run of \<open>main\<close> ends without an exception, a second run on the resulting database
  updates no notifier search and no listing, and leaves the database as the first run
  left it.
\<close>

theorem migration_idempotent:
  "(convert_spec spec = Inr (Some spec') \<longrightarrow> convert_spec spec' = Inr None) \<and>
   (main db = (db', Inr (n, m)) \<longrightarrow> main db' = (db', Inr (0, 0)))"
proof (intro conjI impI)
  assume "main db = (db', Inr (n, m))"
  then obtain rows1 rows2 where
    n: "update_notifier_rows (notifiers db) = Inr (rows1, n)" and
    l: "update_listing_rows (listings db) = Inr (rows2, m)" and
    db': "db' = db\<lparr>notifiers := rows1, listings := rows2\<rparr>"
    by (auto simp: main_def update_notifiers_def update_listings_def
        split: sum.splits prod.splits)
  from n have "update_notifier_rows rows1 = Inr (rows1, 0)" by (rule update_notifier_rows_again)
  moreover from l have "update_listing_rows rows2 = Inr (rows2, 0)"
    by (rule update_listing_rows_again)
  ultimately show "main db' = (db', Inr (0, 0))"
    by (simp add: db' main_def update_notifiers_def update_listings_def)
qed (simp add: convert_spec_again)

theorem migration_idempotent_witness:
  "convert_spec (JObj old_spec) = Inr (Some (JObj old_spec_converted)) \<and>
   convert_spec (JObj old_spec_converted) = Inr None \<and>
   main db_before = (db_after, Inr (1, 1)) \<and>
   main db_after = (db_after, Inr (0, 0))"
proof -
  have 1: "convert_spec (JObj old_spec) = Inr (Some (JObj old_spec_converted))"
    by (simp add: migration_defs)
  have 2: "main db_before = (db_after, Inr (1, 1))"
    by (simp add: migration_defs)
  from migration_idempotent [of "JObj old_spec" "JObj old_spec_converted" db_before db_after 1 1]
    1 2 show ?thesis by simp
qed

section \<open>The Discord bot\<close>

subsection \<open>Exceptions, messages and the collaborators\<close>

text \<open>
  What a coroutine of the program can raise, by the \<open>except\<close> clause that takes it:
  \<open>asyncio.CancelledError\<close>; an instance of \<open>Exception\<close>, with the text
  \<open>traceback.format_exc()\<close> gives while it is handled; and an exception outside
  \<open>Exception\<close> (\<open>SystemExit\<close>, \<open>KeyboardInterrupt\<close>, \<open>GeneratorExit\<close>), which neither
  clause of \<open>on_message\<close> takes.
\<close>

datatype py_exception = CancelledError | Exception string | BaseException string

datatype outcome = Returned | Raised py_exception

text \<open>A Discord message as the bot reads it: its id, the id and the mention text of its
  author, its content, and the two fields \<open>mentioned_in\<close> looks at.\<close>

record message =
  message_id :: nat
  author :: nat
  author_mention :: string
  content :: string
  mention_everyone :: bool
  mentions :: "nat list"

text \<open>What the bot does to the world while it handles a message, in order: the line it
  logs, the handler it awaits (with the message and the match object), the text it
  passes to \<open>send\<close> on the message's channel.\<close>

datatype ('h, 'm) effect = Logged string | Invoked 'h message 'm | Sent string

text \<open>
  The code outside the repository that \<open>on_message\<close> calls: \<open>re_match r s\<close> is
  \<open>re.compile(r, re.IGNORECASE).match(s)\<close> (\<open>None\<close> or a match object); \<open>run f message
  match\<close> is what awaiting the handler \<open>f\<close> ends with (\<open>None\<close> when it returns; the bot
  it also receives is not looked at here);
  \<open>channel_send text\<close> is what awaiting \<open>message.channel.send(text)\<close> ends with.
\<close>

record ('h, 'm) collaborators =
  re_match :: "string \<Rightarrow> string \<Rightarrow> 'm option"
  run :: "'h \<Rightarrow> message \<Rightarrow> 'm \<Rightarrow> py_exception option"
  channel_send :: "string \<Rightarrow> py_exception option"

datatype ReactionAction = ADDED | REMOVED

record reaction =
  reaction_message :: message
  emoji :: string

text \<open>\<open>DiscordBot\<close>: \<open>client.user\<close> by its id (\<open>None\<close> before login), the command prefix and
  the reaction handlers by message id.\<close>

record 'r DiscordBot =
  client_user :: "nat option"
  command_prefix :: "string option"
  reaction_handlers :: "(nat, 'r) dict"

text \<open>\<open>DiscordBot.__init__\<close>: the registry of reaction handlers starts empty. The
  caller that leaves \<open>command_prefix\<close> out passes the default, \<open>Some ''$''\<close>.\<close>

definition init :: "nat option \<Rightarrow> string option \<Rightarrow> 'r DiscordBot" where
  "init user command_prefix_arg =
     \<lparr>client_user = user, command_prefix = command_prefix_arg, reaction_handlers = []\<rparr>"

subsection \<open>Commands\<close>

text \<open>
  \<open>_discord_bot_commands\<close> is a dict from compiled pattern to handler. Two patterns
  compiled from the same text with the same flags are equal (and \<open>re.compile\<close> returns
  the cached object), so a key is the text of the regex. \<open>command(r)(f)\<close> assigns \<open>f\<close> under
  that key.
\<close>

definition command :: "string \<Rightarrow> 'h \<Rightarrow> (string, 'h) dict \<Rightarrow> (string, 'h) dict" where
  "command r f commands = AList.update r f commands"

text \<open>The dict after a sequence of decorations, in the order they ran, from the empty
  dict of the module.\<close>

definition registered :: "(string \<times> 'h) list \<Rightarrow> (string, 'h) dict" where
  "registered regs = foldl (\<lambda>commands rf. command (fst rf) (snd rf) commands) [] regs"

text \<open>\<open>s[-n:]\<close> for a positive \<open>n\<close>.\<close>

definition last_chars :: "nat \<Rightarrow> string \<Rightarrow> string" where
  "last_chars n s = drop (length s - n) s"

definition code_fence :: string where
  "code_fence = [CHR 0x60, CHR 0x60, CHR 0x60]"

definition error_text :: "message \<Rightarrow> string \<Rightarrow> string" where
  "error_text message tb =
     ''Sorry '' @ author_mention message @
     ''! Something went wrong while running your command.'' @
     code_fence @ last_chars 1900 tb @ code_fence"

text \<open>The \<open>try\<close> statement of \<open>on_message\<close> around the awaited handler. An exception
  raised by the send inside the \<open>except Exception\<close> clause is the one that leaves.\<close>

definition invoke ::
  "('h, 'm) collaborators \<Rightarrow> 'h \<Rightarrow> message \<Rightarrow> 'm \<Rightarrow> ('h, 'm) effect list \<times> outcome" where
  "invoke lib handler message match =
     (case run lib handler message match of
        None \<Rightarrow> ([Invoked handler message match], Returned)
      | Some CancelledError \<Rightarrow> ([Invoked handler message match], Raised CancelledError)
      | Some (Exception tb) \<Rightarrow>
          ([Invoked handler message match, Sent (error_text message tb)],
           (case channel_send lib (error_text message tb) of
              None \<Rightarrow> Raised (Exception tb)
            | Some e \<Rightarrow> Raised e))
      | Some (BaseException tb) \<Rightarrow> ([Invoked handler message match], Raised (BaseException tb)))"

text \<open>The loop of \<open>on_message\<close> over the keys of the dict, in insertion order; the
  handler it looks up under a key is the one paired with it. The loop ends at the first
  pattern that matches (\<open>break\<close>, or an exception).\<close>

fun dispatch ::
  "('h, 'm) collaborators \<Rightarrow> (string, 'h) dict \<Rightarrow> message \<Rightarrow> string \<Rightarrow>
     ('h, 'm) effect list \<times> outcome" where
  "dispatch lib [] message command_text = ([], Returned)"
| "dispatch lib ((pattern, handler) # rest) message command_text =
     (case re_match lib pattern command_text of
        None \<Rightarrow> dispatch lib rest message command_text
      | Some match \<Rightarrow> invoke lib handler message match)"

subsection \<open>Reading the command out of a message\<close>

text \<open>\<open>str(n)\<close> for a non-negative integer.\<close>

fun str_nat :: "nat \<Rightarrow> string" where
  "str_nat n =
     (if n < 10 then [''0123456789'' ! n]
      else str_nat (n div 10) @ [''0123456789'' ! (n mod 10)])"

text \<open>\<open>user.mentioned_in(message)\<close> of discord.py.\<close>

definition mentioned_in :: "nat \<Rightarrow> message \<Rightarrow> bool" where
  "mentioned_in user_id message =
     (if mention_everyone message then True else list_ex (\<lambda>u. u = user_id) (mentions message))"

text \<open>\<open>re.sub(rf"<@!?{id}>", "", s, 1)\<close>: the leftmost mention of the user, with or without
  the exclamation mark, is removed.\<close>

fun remove_first_mention :: "string \<Rightarrow> string \<Rightarrow> string" where
  "remove_first_mention uid [] = []"
| "remove_first_mention uid (c # cs) =
     (if prefix (''<@!'' @ uid @ ''>'') (c # cs)
      then drop (length (''<@!'' @ uid @ ''>'')) (c # cs)
      else if prefix (''<@'' @ uid @ ''>'') (c # cs)
      then drop (length (''<@'' @ uid @ ''>'')) (c # cs)
      else c # remove_first_mention uid cs)"

text \<open>\<open>str.strip()\<close>, on characters below 256.\<close>

definition is_space :: "char \<Rightarrow> bool" where
  "is_space c =
     (c \<in> set [CHR 0x09, CHR 0x0A, CHR 0x0B, CHR 0x0C, CHR 0x0D, CHR 0x1C, CHR 0x1D, CHR 0x1E,
               CHR 0x1F, CHR 0x20, CHR 0x85, CHR 0xA0])"

definition strip :: "string \<Rightarrow> string" where
  "strip s = rev (dropWhile is_space (rev (dropWhile is_space s)))"

definition get_command_from_message :: "'r DiscordBot \<Rightarrow> message \<Rightarrow> string option" where
  "get_command_from_message self message =
     (if (case client_user self of None \<Rightarrow> False | Some uid \<Rightarrow> mentioned_in uid message)
      then (case client_user self of
              None \<Rightarrow> None
            | Some uid \<Rightarrow> Some (strip (remove_first_mention (str_nat uid) (content message))))
      else if (case command_prefix self of None \<Rightarrow> False
               | Some p \<Rightarrow> prefix p (content message))
      then (case command_prefix self of
              None \<Rightarrow> None
            | Some p \<Rightarrow> Some (strip (drop (length p) (content message))))
      else None)"

subsection \<open>The two event handlers\<close>

definition on_message ::
  "('h, 'm) collaborators \<Rightarrow> (string, 'h) dict \<Rightarrow> 'r DiscordBot \<Rightarrow> message \<Rightarrow>
     ('h, 'm) effect list \<times> outcome" where
  "on_message lib commands self message =
     (if client_user self = Some (author message) then ([], Returned)
      else
        (case get_command_from_message self message of
           None \<Rightarrow> ([], Returned)
         | Some command_text \<Rightarrow>
             (case dispatch lib commands message command_text of
                (effects, result) \<Rightarrow>
                  (Logged (''Received command: '' @ command_text) # effects, result))))"

text \<open>\<open>on_reaction_change\<close>: the handler awaited, with its three arguments, and how the
  call ends. \<open>run_reaction\<close> is what awaiting a reaction handler ends with.\<close>

definition on_reaction_change ::
  "('r \<Rightarrow> ReactionAction \<Rightarrow> reaction \<Rightarrow> nat \<Rightarrow> py_exception option) \<Rightarrow> 'r DiscordBot \<Rightarrow>
     ReactionAction \<Rightarrow> reaction \<Rightarrow> nat \<Rightarrow>
     ('r \<times> ReactionAction \<times> reaction \<times> nat) list \<times> outcome" where
  "on_reaction_change run_reaction self action reaction user =
     (case map_of (reaction_handlers self) (message_id (reaction_message reaction)) of
        None \<Rightarrow> ([], Returned)
      | Some handler \<Rightarrow>
          ([(handler, action, reaction, user)],
           (case run_reaction handler action reaction user of
              None \<Rightarrow> Returned
            | Some e \<Rightarrow> Raised e)))"

text \<open>The handlers awaited during a run, in order.\<close>

fun handlers_invoked :: "('h, 'm) effect list \<Rightarrow> 'h list" where
  "handlers_invoked [] = []"
| "handlers_invoked (Invoked h msg m # es) = h # handlers_invoked es"
| "handlers_invoked (Logged t # es) = handlers_invoked es"
| "handlers_invoked (Sent t # es) = handlers_invoked es"

text \<open>The texts sent to the channel during a run, in order.\<close>

fun texts_sent :: "('h, 'm) effect list \<Rightarrow> string list" where
  "texts_sent [] = []"
| "texts_sent (Sent t # es) = t # texts_sent es"
| "texts_sent (Logged t # es) = texts_sent es"
| "texts_sent (Invoked h msg m # es) = texts_sent es"

subsection \<open>Properties of the command loop\<close>

lemma handlers_invoked_invoke:
  "handlers_invoked (fst (invoke lib handler message m)) = [handler]"
  by (simp add: invoke_def split: option.splits py_exception.splits)

lemma dispatch_skip:
  "\<forall>(p, h) \<in> set before. re_match lib p command_text = None \<Longrightarrow>
     dispatch lib (before @ rest) message command_text = dispatch lib rest message command_text"
  by (induction before) auto

lemma dispatch_reaches:
  assumes "\<forall>(p, h) \<in> set before. re_match lib p command_text = None"
    and "re_match lib pattern command_text = Some m"
  shows "dispatch lib (before @ (pattern, handler) # rest) message command_text =
           invoke lib handler message m"
  using assms by (simp add: dispatch_skip)

lemma dispatch_no_match:
  "\<forall>(p, h) \<in> set commands. re_match lib p command_text = None \<Longrightarrow>
     dispatch lib commands message command_text = ([], Returned)"
  using dispatch_skip [of commands lib command_text "[]" message] by simp

lemma dispatch_find_key:
  "dispatch lib commands message command_text =
     (case find (\<lambda>r. re_match lib r command_text \<noteq> None) (map fst commands) of
        None \<Rightarrow> ([], Returned)
      | Some r \<Rightarrow>
          (case map_of commands r of
             None \<Rightarrow> ([], Returned)
           | Some handler \<Rightarrow>
               (case re_match lib r command_text of
                  None \<Rightarrow> ([], Returned)
                | Some m \<Rightarrow> invoke lib handler message m)))"
proof (induction commands)
  case Nil
  then show ?case by simp
next
  case (Cons c commands)
  obtain p h where c: "c = (p, h)" by (cases c)
  show ?case
  proof (cases "re_match lib p command_text")
    case (Some m)
    with c show ?thesis by simp
  next
    case None
    have "r \<noteq> p" if "find (\<lambda>r. re_match lib r command_text \<noteq> None) (map fst commands) = Some r"
      for r
      using that None by (auto simp: find_Some_iff)
    with c None Cons.IH show ?thesis
      by (auto split: option.splits)
  qed
qed

lemma dispatch_find_pair:
  "dispatch lib commands message command_text =
     (case find (\<lambda>rf. re_match lib (fst rf) command_text \<noteq> None) commands of
        None \<Rightarrow> ([], Returned)
      | Some rf \<Rightarrow>
          (case re_match lib (fst rf) command_text of
             None \<Rightarrow> ([], Returned)
           | Some m \<Rightarrow> invoke lib (snd rf) message m))"
  by (induction commands) (auto split: option.splits)

lemma registered_snoc:
  "registered (regs @ [(r, f)]) = AList.update r f (registered regs)"
  by (simp add: registered_def command_def)

lemma map_of_registered: "map_of (registered regs) = map_of (rev regs)"
proof (induction regs rule: rev_induct)
  case Nil
  then show ?case by (simp add: registered_def)
next
  case (snoc x regs)
  obtain r f where "x = (r, f)" by (cases x)
  with snoc show ?case by (simp add: registered_snoc AList.update_conv')
qed

lemma keys_registered: "set (map fst (registered regs)) = set (map fst regs)"
proof (induction regs rule: rev_induct)
  case Nil
  then show ?case by (simp add: registered_def)
next
  case (snoc x regs)
  obtain r f where "x = (r, f)" by (cases x)
  with snoc show ?case by (simp add: registered_snoc AList.dom_update)
qed

lemma find_snoc:
  "find P (xs @ [x]) =
     (case find P xs of None \<Rightarrow> (if P x then Some x else None) | Some y \<Rightarrow> Some y)"
  by (induction xs) auto

lemma find_keys_registered:
  "find P (map fst (registered regs)) = find P (map fst regs)"
proof (induction regs rule: rev_induct)
  case Nil
  then show ?case by (simp add: registered_def)
next
  case (snoc x regs)
  obtain r f where x: "x = (r, f)" by (cases x)
  show ?case
  proof (cases "r \<in> set (map fst (registered regs))")
    case True
    then have keys: "map fst (registered (regs @ [x])) = map fst (registered regs)"
      by (simp add: x registered_snoc AList.update_keys)
    from True have "r \<in> set (map fst regs)" by (simp only: keys_registered)
    then have "find P (map fst regs) = None \<Longrightarrow> \<not> P r"
      by (auto simp: find_None_iff)
    with keys snoc x show ?thesis
      by (auto simp: find_snoc split: option.splits)
  next
    case False
    then have "map fst (registered (regs @ [x])) = map fst (registered regs) @ [r]"
      by (simp add: x registered_snoc AList.update_keys)
    with snoc x show ?thesis by (simp add: find_snoc)
  qed
qed

lemma update_fresh:
  "k \<notin> set (map fst al) \<Longrightarrow> AList.update k v al = al @ [(k, v)]"
  by (induction al) auto

lemma registered_distinct:
  "distinct (map fst regs) \<Longrightarrow> registered regs = regs"
proof (induction regs rule: rev_induct)
  case Nil
  then show ?case by (simp add: registered_def)
next
  case (snoc x regs)
  obtain r f where x: "x = (r, f)" by (cases x)
  with snoc show ?case by (simp add: registered_snoc update_fresh)
qed

subsection \<open>Example collaborators\<close>

text \<open>The letters below 256 that have a lower-case partner below 256, and those
  partners in the same order.\<close>

definition upper_letters :: string where
  "upper_letters =
     ''ABCDEFGHIJKLMNOPQRSTUVWXYZ'' @
     [CHR 0xC0, CHR 0xC1, CHR 0xC2, CHR 0xC3, CHR 0xC4, CHR 0xC5, CHR 0xC6, CHR 0xC7,
      CHR 0xC8, CHR 0xC9, CHR 0xCA, CHR 0xCB, CHR 0xCC, CHR 0xCD, CHR 0xCE, CHR 0xCF,
      CHR 0xD0, CHR 0xD1, CHR 0xD2, CHR 0xD3, CHR 0xD4, CHR 0xD5, CHR 0xD6,
      CHR 0xD8, CHR 0xD9, CHR 0xDA, CHR 0xDB, CHR 0xDC, CHR 0xDD, CHR 0xDE]"

definition lower_letters :: string where
  "lower_letters =
     ''abcdefghijklmnopqrstuvwxyz'' @
     [CHR 0xE0, CHR 0xE1, CHR 0xE2, CHR 0xE3, CHR 0xE4, CHR 0xE5, CHR 0xE6, CHR 0xE7,
      CHR 0xE8, CHR 0xE9, CHR 0xEA, CHR 0xEB, CHR 0xEC, CHR 0xED, CHR 0xEE, CHR 0xEF,
      CHR 0xF0, CHR 0xF1, CHR 0xF2, CHR 0xF3, CHR 0xF4, CHR 0xF5, CHR 0xF6,
      CHR 0xF8, CHR 0xF9, CHR 0xFA, CHR 0xFB, CHR 0xFC, CHR 0xFD, CHR 0xFE]"

definition lower :: "char \<Rightarrow> char" where
  "lower c = (case map_of (zip upper_letters lower_letters) c of None \<Rightarrow> c | Some l \<Rightarrow> l)"

text \<open>An example of \<open>re_match\<close>: what \<open>re.compile(r, re.IGNORECASE).match(s)\<close> gives for
  a regex that is \<open>^\<close> followed by literal characters: a match when the string starts with
  the literal, letter case aside. The match object is represented by the matched text.\<close>

definition example_match :: "string \<Rightarrow> string \<Rightarrow> string option" where
  "example_match r s =
     (case r of
        [] \<Rightarrow> None
      | c # lit \<Rightarrow>
          if c = CHR ''^'' \<and> prefix (map lower lit) (map lower s)
          then Some (take (length lit) s) else None)"

text \<open>Example handlers, by name: one that returns and three that raise.\<close>

definition example_run :: "string \<Rightarrow> message \<Rightarrow> string \<Rightarrow> py_exception option" where
  "example_run h message m =
     (if h = ''failing'' then Some (Exception ''Traceback (most recent call last): ValueError'')
      else if h = ''cancelled'' then Some CancelledError
      else if h = ''exiting'' then Some (BaseException ''SystemExit'')
      else None)"

definition example_lib :: "(string, string) collaborators" where
  "example_lib = \<lparr>re_match = example_match, run = example_run, channel_send = (\<lambda>text. None)\<rparr>"

definition example_message :: message where
  "example_message =
     \<lparr>message_id = 1001, author = 7, author_mention = ''<@7>'', content = ''$debug reset'',
      mention_everyone = False, mentions = []\<rparr>"

text \<open>The same collaborators with a channel whose send raises.\<close>

definition failing_send_lib :: "(string, string) collaborators" where
  "failing_send_lib = example_lib\<lparr>channel_send := (\<lambda>text. Some (Exception ''HTTPException''))\<rparr>"

definition example_bot :: "string DiscordBot" where
  "example_bot =
     \<lparr>client_user = Some 42, command_prefix = Some ''$'',
      reaction_handlers = [(1001, ''rsvp'')]\<rparr>"

definition example_commands :: "(string, string) dict" where
  "example_commands = registered [(''^debug '', ''debug''), (''^d'', ''short'')]"

text \<open>Two messages written by the bot itself: one mentions the bot, one starts with the
  command prefix.\<close>

definition own_mention :: message where
  "own_mention =
     \<lparr>message_id = 1002, author = 42, author_mention = ''<@42>'',
      content = ''<@!42> debug reset'', mention_everyone = False, mentions = [42]\<rparr>"

definition own_prefixed :: message where
  "own_prefixed =
     \<lparr>message_id = 1004, author = 42, author_mention = ''<@42>'',
      content = ''$debug reset'', mention_everyone = False, mentions = []\<rparr>"

definition example_reaction :: reaction where
  "example_reaction = \<lparr>reaction_message = example_message, emoji = ''thumbsup''\<rparr>"

definition other_reaction :: reaction where
  "other_reaction = \<lparr>reaction_message = own_mention, emoji = ''thumbsup''\<rparr>"

definition example_run_reaction ::
  "string \<Rightarrow> ReactionAction \<Rightarrow> reaction \<Rightarrow> nat \<Rightarrow> py_exception option" where
  "example_run_reaction h action reaction user = None"

text \<open>The lower-case partners of the characters the examples use.\<close>

lemma lower_chars:
  "lower CHR ''a'' = CHR ''a''"
  "lower CHR ''b'' = CHR ''b''"
  "lower CHR ''c'' = CHR ''c''"
  "lower CHR ''d'' = CHR ''d''"
  "lower CHR ''e'' = CHR ''e''"
  "lower CHR ''f'' = CHR ''f''"
  "lower CHR ''g'' = CHR ''g''"
  "lower CHR ''h'' = CHR ''h''"
  "lower CHR ''i'' = CHR ''i''"
  "lower CHR ''j'' = CHR ''j''"
  "lower CHR ''k'' = CHR ''k''"
  "lower CHR ''l'' = CHR ''l''"
  "lower CHR ''m'' = CHR ''m''"
  "lower CHR ''n'' = CHR ''n''"
  "lower CHR ''o'' = CHR ''o''"
  "lower CHR ''p'' = CHR ''p''"
  "lower CHR ''q'' = CHR ''q''"
  "lower CHR ''r'' = CHR ''r''"
  "lower CHR ''s'' = CHR ''s''"
  "lower CHR ''t'' = CHR ''t''"
  "lower CHR ''u'' = CHR ''u''"
  "lower CHR ''v'' = CHR ''v''"
  "lower CHR ''w'' = CHR ''w''"
  "lower CHR ''x'' = CHR ''x''"
  "lower CHR ''y'' = CHR ''y''"
  "lower CHR ''z'' = CHR ''z''"
  "lower CHR ''D'' = CHR ''d''"
  "lower CHR ''E'' = CHR ''e''"
  "lower CHR ''B'' = CHR ''b''"
  "lower CHR ''U'' = CHR ''u''"
  "lower CHR ''G'' = CHR ''g''"
  "lower CHR '' '' = CHR '' ''"
  by code_simp+

lemmas example_defs =
  example_match_def lower_chars example_run_def example_lib_def example_message_def registered_def
  command_def invoke_def


text \<open>
  What the loop does on the dict that a sequence of decorations leaves. It awaits at most
  one handler: none when no regex matches, and otherwise the handler stored under the
  first decorated regex that matches, which is the handler of the last decoration with
  that regex. When every regex is decorated once, that is the handler decorated with the
  first regex that matches. With \<open>^debug \<close> and then \<open>^d\<close> decorated, both matching
  \<open>debug reset\<close>, the handler of \<open>^debug \<close> is awaited and the other is not.
\<close>

lemma dispatch_registered:
  "(case find (\<lambda>r. re_match lib r command_text \<noteq> None) (map fst regs) of
      None \<Rightarrow> dispatch lib (registered regs) message command_text = ([], Returned)
    | Some r \<Rightarrow>
        (\<exists>handler m. map_of (rev regs) r = Some handler \<and>
           re_match lib r command_text = Some m \<and>
           dispatch lib (registered regs) message command_text = invoke lib handler message m \<and>
           handlers_invoked (fst (dispatch lib (registered regs) message command_text)) =
             [handler])) \<and>
   (distinct (map fst regs) \<longrightarrow>
      (case find (\<lambda>rf. re_match lib (fst rf) command_text \<noteq> None) regs of
         None \<Rightarrow> dispatch lib (registered regs) message command_text = ([], Returned)
       | Some rf \<Rightarrow>
           handlers_invoked (fst (dispatch lib (registered regs) message command_text)) =
             [snd rf])) \<and>
   (re_match lib ''^debug '' ''debug reset'' = Some first_match \<and>
    re_match lib ''^d'' ''debug reset'' = Some second_match \<longrightarrow>
      handlers_invoked
        (fst (dispatch lib (registered [(''^debug '', first_handler), (''^d'', second_handler)]) message
           ''debug reset'')) = [first_handler])"
proof (intro conjI impI)
  let ?P = "\<lambda>r. re_match lib r command_text \<noteq> None"
  show "case find ?P (map fst regs) of
      None \<Rightarrow> dispatch lib (registered regs) message command_text = ([], Returned)
    | Some r \<Rightarrow>
        (\<exists>handler m. map_of (rev regs) r = Some handler \<and>
           re_match lib r command_text = Some m \<and>
           dispatch lib (registered regs) message command_text = invoke lib handler message m \<and>
           handlers_invoked (fst (dispatch lib (registered regs) message command_text)) =
             [handler])"
  proof (cases "find ?P (map fst regs)")
    case None
    then show ?thesis
      by (simp add: dispatch_find_key [of lib "registered regs"] find_keys_registered)
  next
    case (Some r)
    then have "r \<in> set (map fst regs)" and "?P r"
      by (auto simp: find_Some_iff)
    then obtain handler m where h: "map_of (rev regs) r = Some handler"
      and m: "re_match lib r command_text = Some m"
      by (cases "map_of (rev regs) r") (auto simp: map_of_eq_None_iff)
    from Some h m
    have "dispatch lib (registered regs) message command_text = invoke lib handler message m"
      by (simp add: dispatch_find_key [of lib "registered regs"] find_keys_registered
          map_of_registered)
    with Some h m show ?thesis by (simp add: handlers_invoked_invoke)
  qed
next
  assume "distinct (map fst regs)"
  then have "registered regs = regs" by (rule registered_distinct)
  then show "case find (\<lambda>rf. re_match lib (fst rf) command_text \<noteq> None) regs of
         None \<Rightarrow> dispatch lib (registered regs) message command_text = ([], Returned)
       | Some rf \<Rightarrow>
           handlers_invoked (fst (dispatch lib (registered regs) message command_text)) =
             [snd rf]"
  proof (cases "find (\<lambda>rf. re_match lib (fst rf) command_text \<noteq> None) regs")
    case None
    with \<open>registered regs = regs\<close> show ?thesis
      by (simp add: dispatch_find_pair [of lib regs])
  next
    case (Some rf)
    then obtain m where "re_match lib (fst rf) command_text = Some m"
      by (auto simp: find_Some_iff)
    with Some \<open>registered regs = regs\<close> show ?thesis
      by (simp add: dispatch_find_pair [of lib regs] handlers_invoked_invoke)
  qed
next
  assume "re_match lib ''^debug '' ''debug reset'' = Some first_match \<and>
    re_match lib ''^d'' ''debug reset'' = Some second_match"
  then show "handlers_invoked
        (fst (dispatch lib (registered [(''^debug '', first_handler), (''^d'', second_handler)]) message
           ''debug reset'')) = [first_handler]"
    by (simp add: registered_def command_def handlers_invoked_invoke)
qed

lemma dispatch_registered_example:
  "find (\<lambda>r. re_match example_lib r ''debug reset'' \<noteq> None)
     (map fst [(''^debug '', ''first''), (''^d'', ''short''), (''^debug '', ''second'')]) =
     Some ''^debug '' \<and>
   handlers_invoked
     (fst (dispatch example_lib
        (registered [(''^debug '', ''first''), (''^d'', ''short''), (''^debug '', ''second'')])
        example_message ''debug reset'')) = [''second''] \<and>
   distinct (map fst [(''^debug '', ''first''), (''^d'', ''short'')]) \<and>
   re_match example_lib ''^debug '' ''debug reset'' = Some ''debug '' \<and>
   re_match example_lib ''^d'' ''debug reset'' = Some ''d'' \<and>
   handlers_invoked
     (fst (dispatch example_lib (registered [(''^debug '', ''first''), (''^d'', ''short'')])
        example_message ''debug reset'')) = [''first'']"
  using dispatch_registered [where lib = example_lib and command_text = "''debug reset''"
      and regs = "[(''^debug '', ''first''), (''^d'', ''short''), (''^debug '', ''second'')]"
      and message = example_message and first_match = "''debug ''" and second_match = "''d''"
      and first_handler = "''first''" and second_handler = "''short''"]
    dispatch_registered [where lib = example_lib and command_text = "''debug reset''"
      and regs = "[(''^debug '', ''first''), (''^d'', ''short'')]"
      and message = example_message and first_match = "''debug ''" and second_match = "''d''"
      and first_handler = "''first''" and second_handler = "''short''"]
  by (simp add: example_defs)

text \<open>
  Claim C2. The router is to invoke exactly the first registered handler whose pattern
  matches the command, and no handler registered later; the docstring of
  \<open>DiscordBot.command\<close> says the same. The code departs from this when one regex is
  decorated twice: with \<open>^debug \<close> decorated on the handler \<open>first\<close> and then on the handler
  \<open>second\<close>, the first registered handler whose pattern matches \<open>debug reset\<close> (or
  \<open>DEBUG reset\<close>) is \<open>first\<close>, the dict holds \<open>second\<close> alone under the regex, and the loop
  awaits \<open>second\<close>.
\<close>

theorem router_same_regex_twice:
  "find (\<lambda>rf. re_match example_lib (fst rf) ''debug reset'' \<noteq> None)
     [(''^debug '', ''first''), (''^debug '', ''second'')] = Some (''^debug '', ''first'') \<and>
   registered [(''^debug '', ''first''), (''^debug '', ''second'')] =
     [(''^debug '', ''second'')] \<and>
   handlers_invoked
     (fst (dispatch example_lib
        (registered [(''^debug '', ''first''), (''^debug '', ''second'')])
        example_message ''debug reset'')) = [''second''] \<and>
   find (\<lambda>rf. re_match example_lib (fst rf) ''DEBUG reset'' \<noteq> None)
     [(''^debug '', ''first''), (''^debug '', ''second'')] = Some (''^debug '', ''first'') \<and>
   dispatch example_lib (registered [(''^debug '', ''first''), (''^debug '', ''second'')])
     example_message ''DEBUG reset'' =
     ([Invoked ''second'' example_message ''DEBUG ''], Returned)"
  by (simp add: example_defs)

lemma last_chars_bound: "length (last_chars n s) \<le> n"
  by (simp add: last_chars_def)

lemma last_chars_suffix: "suffix (last_chars n s) s"
  by (simp add: last_chars_def suffix_drop)

lemma last_chars_short: "length s \<le> n \<Longrightarrow> last_chars n s = s"
  by (simp add: last_chars_def)

lemma length_error_text:
  "length (error_text message tb) \<le> length (author_mention message) + 1962"
  using last_chars_bound [of 1900 tb] by (simp add: error_text_def code_fence_def)

text \<open>
  Claim C3 (as amended). When the handler the loop reaches raises an instance of
  \<open>Exception\<close>, the router awaits no other handler and sends one message to the channel
  of the command: the apology, then the traceback text cut to its last 1900 characters
  (all of it when it is no longer than that) between code fences, so the message is at
  most 1962 characters longer than the author's mention. When that send returns, the
  handler's exception is raised again; when the send itself raises, the exception of the
  send is the one that leaves. When the handler raises an exception outside \<open>Exception\<close>,
  that exception leaves after the handler's call alone, with nothing sent.
\<close>

theorem handler_exception_reported:
  "((\<forall>(p, h) \<in> set before. re_match lib p command_text = None) \<and>
    re_match lib pattern command_text = Some m \<and>
    run lib handler message m = Some (Exception tb) \<longrightarrow>
      fst (dispatch lib (before @ (pattern, handler) # rest) message command_text) =
        [Invoked handler message m,
         Sent (''Sorry '' @ author_mention message @
               ''! Something went wrong while running your command.'' @
               code_fence @ last_chars 1900 tb @ code_fence)] \<and>
      length (last_chars 1900 tb) \<le> 1900 \<and>
      suffix (last_chars 1900 tb) tb \<and>
      (length tb \<le> 1900 \<longrightarrow> last_chars 1900 tb = tb) \<and>
      length (error_text message tb) \<le> length (author_mention message) + 1962 \<and>
      (channel_send lib (error_text message tb) = None \<longrightarrow>
         snd (dispatch lib (before @ (pattern, handler) # rest) message command_text) =
           Raised (Exception tb)) \<and>
      (\<forall>e. channel_send lib (error_text message tb) = Some e \<longrightarrow>
         snd (dispatch lib (before @ (pattern, handler) # rest) message command_text) =
           Raised e)) \<and>
   ((\<forall>(p, h) \<in> set before. re_match lib p command_text = None) \<and>
    re_match lib pattern command_text = Some m \<and>
    run lib handler message m = Some (BaseException tb) \<longrightarrow>
      dispatch lib (before @ (pattern, handler) # rest) message command_text =
        ([Invoked handler message m], Raised (BaseException tb)) \<and>
      texts_sent (fst (dispatch lib (before @ (pattern, handler) # rest) message command_text)) =
        [])"
proof (intro conjI impI)
  assume a: "(\<forall>(p, h) \<in> set before. re_match lib p command_text = None) \<and>
    re_match lib pattern command_text = Some m \<and>
    run lib handler message m = Some (Exception tb)"
  then have d: "dispatch lib (before @ (pattern, handler) # rest) message command_text =
      invoke lib handler message m"
    by (simp add: dispatch_reaches)
  from a have f: "fst (invoke lib handler message m) =
      [Invoked handler message m, Sent (error_text message tb)]"
    by (simp add: invoke_def)
  from d f show "fst (dispatch lib (before @ (pattern, handler) # rest) message command_text) =
        [Invoked handler message m,
         Sent (''Sorry '' @ author_mention message @
               ''! Something went wrong while running your command.'' @
               code_fence @ last_chars 1900 tb @ code_fence)]"
    by (simp add: error_text_def)
  show "length (last_chars 1900 tb) \<le> 1900" by (rule last_chars_bound)
  show "suffix (last_chars 1900 tb) tb" by (rule last_chars_suffix)
  show "last_chars 1900 tb = tb" if "length tb \<le> 1900"
    using that by (rule last_chars_short)
  show "length (error_text message tb) \<le> length (author_mention message) + 1962"
    by (rule length_error_text)
  show "snd (dispatch lib (before @ (pattern, handler) # rest) message command_text) =
           Raised (Exception tb)"
    if "channel_send lib (error_text message tb) = None"
    using that a d by (simp add: invoke_def)
  show "\<forall>e. channel_send lib (error_text message tb) = Some e \<longrightarrow>
         snd (dispatch lib (before @ (pattern, handler) # rest) message command_text) =
           Raised e"
    using a d by (simp add: invoke_def)
next
  assume b: "(\<forall>(p, h) \<in> set before. re_match lib p command_text = None) \<and>
    re_match lib pattern command_text = Some m \<and>
    run lib handler message m = Some (BaseException tb)"
  then have d: "dispatch lib (before @ (pattern, handler) # rest) message command_text =
      invoke lib handler message m"
    by (simp add: dispatch_reaches)
  with b show r: "dispatch lib (before @ (pattern, handler) # rest) message command_text =
        ([Invoked handler message m], Raised (BaseException tb))"
    by (simp add: invoke_def)
  then show "texts_sent
      (fst (dispatch lib (before @ (pattern, handler) # rest) message command_text)) = []"
    by simp
qed

theorem handler_exception_reported_witness:
  "re_match example_lib ''^status'' ''fail now'' = None \<and>
   re_match example_lib ''^fail'' ''fail now'' = Some ''fail'' \<and>
   run example_lib ''failing'' example_message ''fail'' =
     Some (Exception ''Traceback (most recent call last): ValueError'') \<and>
   channel_send example_lib
     (error_text example_message ''Traceback (most recent call last): ValueError'') = None \<and>
   dispatch example_lib [(''^status'', ''status''), (''^fail'', ''failing'')] example_message
     ''fail now'' =
     ([Invoked ''failing'' example_message ''fail'',
       Sent (''Sorry <@7>! Something went wrong while running your command.'' @ code_fence @
             ''Traceback (most recent call last): ValueError'' @ code_fence)],
      Raised (Exception ''Traceback (most recent call last): ValueError'')) \<and>
   channel_send failing_send_lib
     (error_text example_message ''Traceback (most recent call last): ValueError'') =
     Some (Exception ''HTTPException'') \<and>
   snd (dispatch failing_send_lib [(''^status'', ''status''), (''^fail'', ''failing'')]
          example_message ''fail now'') = Raised (Exception ''HTTPException'') \<and>
   re_match example_lib ''^status'' ''exit'' = None \<and>
   re_match example_lib ''^exit'' ''exit'' = Some ''exit'' \<and>
   run example_lib ''exiting'' example_message ''exit'' = Some (BaseException ''SystemExit'') \<and>
   dispatch example_lib [(''^status'', ''status''), (''^exit'', ''exiting'')] example_message
     ''exit'' =
     ([Invoked ''exiting'' example_message ''exit''], Raised (BaseException ''SystemExit''))"
  using handler_exception_reported [where lib = example_lib
      and before = "[(''^status'', ''status'')]" and command_text = "''fail now''"
      and pattern = "''^fail''" and m = "''fail''" and handler = "''failing''"
      and message = example_message
      and tb = "''Traceback (most recent call last): ValueError''" and rest = "[]"]
    handler_exception_reported [where lib = failing_send_lib
      and before = "[(''^status'', ''status'')]" and command_text = "''fail now''"
      and pattern = "''^fail''" and m = "''fail''" and handler = "''failing''"
      and message = example_message
      and tb = "''Traceback (most recent call last): ValueError''" and rest = "[]"]
    handler_exception_reported [where lib = example_lib
      and before = "[(''^status'', ''status'')]" and command_text = "''exit''"
      and pattern = "''^exit''" and m = "''exit''" and handler = "''exiting''"
      and message = example_message and tb = "''SystemExit''" and rest = "[]"]
  by (simp add: example_defs failing_send_lib_def error_text_def last_chars_def)

text \<open>The claim as stated fails for an exception outside \<open>Exception\<close> (nothing is sent
  for it), and when the send itself raises (the send's exception is the one that
  leaves).\<close>

theorem handler_exception_reported_counterexample:
  "run example_lib ''exiting'' example_message ''exit'' = Some (BaseException ''SystemExit'') \<and>
   dispatch example_lib [(''^status'', ''status''), (''^exit'', ''exiting'')] example_message
     ''exit'' =
     ([Invoked ''exiting'' example_message ''exit''], Raised (BaseException ''SystemExit'')) \<and>
   run failing_send_lib ''failing'' example_message ''fail'' =
     Some (Exception ''Traceback (most recent call last): ValueError'') \<and>
   snd (dispatch failing_send_lib [(''^fail'', ''failing'')] example_message ''fail now'') =
     Raised (Exception ''HTTPException'')"
  by (simp add: example_defs failing_send_lib_def)

text \<open>
  Claim C4. When the handler the loop reaches raises \<open>asyncio.CancelledError\<close>, the
  router raises it again unchanged, after awaiting that handler only, and sends nothing
  to the channel.
\<close>

theorem cancellation_propagates:
  "(\<forall>(p, h) \<in> set before. re_match lib p command_text = None) \<and>
   re_match lib pattern command_text = Some m \<and>
   run lib handler message m = Some CancelledError \<longrightarrow>
     dispatch lib (before @ (pattern, handler) # rest) message command_text =
       ([Invoked handler message m], Raised CancelledError) \<and>
     texts_sent (fst (dispatch lib (before @ (pattern, handler) # rest) message command_text)) =
       []"
proof (intro impI)
  assume a: "(\<forall>(p, h) \<in> set before. re_match lib p command_text = None) \<and>
   re_match lib pattern command_text = Some m \<and>
   run lib handler message m = Some CancelledError"
  then have "dispatch lib (before @ (pattern, handler) # rest) message command_text =
      invoke lib handler message m"
    by (simp add: dispatch_reaches)
  moreover from a have "invoke lib handler message m =
      ([Invoked handler message m], Raised CancelledError)"
    by (simp add: invoke_def)
  ultimately show "dispatch lib (before @ (pattern, handler) # rest) message command_text =
       ([Invoked handler message m], Raised CancelledError) \<and>
     texts_sent (fst (dispatch lib (before @ (pattern, handler) # rest) message command_text)) =
       []"
    by simp
qed

theorem cancellation_propagates_witness:
  "re_match example_lib ''^status'' ''cancel me'' = None \<and>
   re_match example_lib ''^cancel'' ''cancel me'' = Some ''cancel'' \<and>
   run example_lib ''cancelled'' example_message ''cancel'' = Some CancelledError \<and>
   dispatch example_lib [(''^status'', ''status''), (''^cancel'', ''cancelled'')]
     example_message ''cancel me'' =
     ([Invoked ''cancelled'' example_message ''cancel''], Raised CancelledError)"
  using cancellation_propagates [where lib = example_lib
      and before = "[(''^status'', ''status'')]" and command_text = "''cancel me''"
      and pattern = "''^cancel''" and m = "''cancel''" and handler = "''cancelled''"
      and message = example_message and rest = "[]"]
  by (simp add: example_defs)

text \<open>
  Claim C5. When no registered pattern matches the command text, the loop awaits no
  handler, sends nothing and returns normally; \<open>on_message\<close> then does nothing but log
  the command it received.
\<close>

theorem unmatched_command_ignored:
  "(\<forall>(p, h) \<in> set commands. re_match lib p command_text = None) \<longrightarrow>
     dispatch lib commands message command_text = ([], Returned) \<and>
     (client_user self \<noteq> Some (author message) \<and>
      get_command_from_message self message = Some command_text \<longrightarrow>
        on_message lib commands self message =
          ([Logged (''Received command: '' @ command_text)], Returned))"
  by (simp add: dispatch_no_match on_message_def)

theorem unmatched_command_ignored_witness:
  "list_all (\<lambda>ph. re_match example_lib (fst ph) ''hello there'' = None) example_commands \<and>
   client_user example_bot \<noteq> Some (author example_message) \<and>
   get_command_from_message example_bot (example_message\<lparr>content := ''$hello there''\<rparr>) =
     Some ''hello there'' \<and>
   dispatch example_lib example_commands example_message ''hello there'' = ([], Returned) \<and>
   on_message example_lib example_commands example_bot
     (example_message\<lparr>content := ''$hello there''\<rparr>) =
     ([Logged ''Received command: hello there''], Returned)"
  using unmatched_command_ignored [where lib = example_lib and commands = example_commands
      and command_text = "''hello there''" and self = example_bot
      and message = "example_message\<lparr>content := ''$hello there''\<rparr>"]
    unmatched_command_ignored [where lib = example_lib and commands = example_commands
      and command_text = "''hello there''" and self = example_bot
      and message = example_message]
  by (simp add: example_defs example_bot_def example_commands_def get_command_from_message_def
      mentioned_in_def strip_def is_space_def)

text \<open>
  Claim C9. A message whose author is the bot's own user is dropped at once:
  \<open>on_message\<close> returns with no effect at all (no command read or logged, no handler
  awaited, nothing sent), whatever the content of the message, its mentions, the command
  prefix and the registered commands.
\<close>

theorem own_message_ignored:
  "client_user self = Some (author message) \<longrightarrow>
     on_message lib commands self message = ([], Returned)"
  by (simp add: on_message_def)

theorem own_message_ignored_witness:
  "client_user example_bot = Some (author own_mention) \<and>
   client_user example_bot = Some (author own_prefixed) \<and>
   get_command_from_message example_bot own_mention = Some ''debug reset'' \<and>
   get_command_from_message example_bot own_prefixed = Some ''debug reset'' \<and>
   on_message example_lib example_commands example_bot own_mention = ([], Returned) \<and>
   on_message example_lib example_commands example_bot own_prefixed = ([], Returned) \<and>
   on_message example_lib example_commands example_bot (own_prefixed\<lparr>author := 7\<rparr>) =
     ([Logged ''Received command: debug reset'',
       Invoked ''debug'' (own_prefixed\<lparr>author := 7\<rparr>) ''debug ''], Returned)"
  using own_message_ignored [where self = example_bot and message = own_mention
      and lib = example_lib and commands = example_commands]
    own_message_ignored [where self = example_bot and message = own_prefixed
      and lib = example_lib and commands = example_commands]
  by (simp add: example_defs example_bot_def example_commands_def own_mention_def
      own_prefixed_def get_command_from_message_def mentioned_in_def strip_def is_space_def
      on_message_def)

subsection \<open>Properties of the reaction handlers\<close>

text \<open>
  Claim C6. A reaction event on a message whose id has a handler in the registry awaits
  exactly that handler, with the action, the reaction and the user; an event on a message
  whose id has none does nothing. In particular, after a handler is bound to another
  message id, an event for a message with no handler still does nothing.
\<close>

theorem reaction_routed_by_message_id:
  "(map_of (reaction_handlers self) (message_id (reaction_message reaction)) = Some handler \<longrightarrow>
      on_reaction_change run_reaction self action reaction user =
        ([(handler, action, reaction, user)],
         (case run_reaction handler action reaction user of
            None \<Rightarrow> Returned
          | Some e \<Rightarrow> Raised e))) \<and>
   (message_id (reaction_message reaction) \<notin> set (map fst (reaction_handlers self)) \<longrightarrow>
      on_reaction_change run_reaction self action reaction user = ([], Returned)) \<and>
   (message_id (reaction_message reaction) \<notin> set (map fst (reaction_handlers self)) \<and>
    bound_id \<noteq> message_id (reaction_message reaction) \<longrightarrow>
      on_reaction_change run_reaction
        (self\<lparr>reaction_handlers := AList.update bound_id handler (reaction_handlers self)\<rparr>)
        action reaction user = ([], Returned))"
proof (intro conjI impI)
  assume "map_of (reaction_handlers self) (message_id (reaction_message reaction)) = Some handler"
  then show "on_reaction_change run_reaction self action reaction user =
        ([(handler, action, reaction, user)],
         (case run_reaction handler action reaction user of
            None \<Rightarrow> Returned
          | Some e \<Rightarrow> Raised e))"
    by (simp add: on_reaction_change_def)
next
  assume "message_id (reaction_message reaction) \<notin> set (map fst (reaction_handlers self))"
  then have "map_of (reaction_handlers self) (message_id (reaction_message reaction)) = None"
    by (simp add: map_of_eq_None_iff)
  then show "on_reaction_change run_reaction self action reaction user = ([], Returned)"
    by (simp add: on_reaction_change_def)
next
  assume a: "message_id (reaction_message reaction) \<notin> set (map fst (reaction_handlers self)) \<and>
    bound_id \<noteq> message_id (reaction_message reaction)"
  then have "map_of (reaction_handlers self) (message_id (reaction_message reaction)) = None"
    by (simp add: map_of_eq_None_iff)
  with a show "on_reaction_change run_reaction
        (self\<lparr>reaction_handlers := AList.update bound_id handler (reaction_handlers self)\<rparr>)
        action reaction user = ([], Returned)"
    by (simp add: on_reaction_change_def AList.update_conv')
qed

theorem reaction_routed_by_message_id_witness:
  "map_of (reaction_handlers example_bot) (message_id (reaction_message example_reaction)) =
     Some ''rsvp'' \<and>
   on_reaction_change example_run_reaction example_bot ADDED example_reaction 7 =
     ([(''rsvp'', ADDED, example_reaction, 7)], Returned) \<and>
   message_id (reaction_message other_reaction) \<notin> set (map fst (reaction_handlers example_bot)) \<and>
   on_reaction_change example_run_reaction example_bot REMOVED other_reaction 7 =
     ([], Returned) \<and>
   on_reaction_change example_run_reaction
     (example_bot\<lparr>reaction_handlers := AList.update 1003 ''poll'' (reaction_handlers example_bot)\<rparr>)
     ADDED other_reaction 7 = ([], Returned)"
  using reaction_routed_by_message_id [where self = example_bot and reaction = example_reaction
      and handler = "''rsvp''" and run_reaction = example_run_reaction and action = ADDED
      and user = 7 and bound_id = 1003]
    reaction_routed_by_message_id [where self = example_bot and reaction = other_reaction
      and handler = "''poll''" and run_reaction = example_run_reaction and action = REMOVED
      and user = 7 and bound_id = 1003]
    reaction_routed_by_message_id [where self = example_bot and reaction = other_reaction
      and handler = "''poll''" and run_reaction = example_run_reaction and action = ADDED
      and user = 7 and bound_id = 1003]
  by (simp add: example_bot_def example_reaction_def other_reaction_def example_message_def
      own_mention_def example_run_reaction_def)

subsection \<open>Binding a reaction handler\<close>

text \<open>
  Modelled from the spec: \<open>bind(messageId, handler)\<close> of the Reaction Handler Registry.
  The code that binds handlers (\<open>moobot.events.add_reaction_handlers\<close>) is not among the
  sources. The registry it writes to is the dict \<open>reaction_handlers\<close> that
  \<open>DiscordBot.__init__\<close> creates empty, so of the two policies the spec allows, binding
  is taken to be item assignment on that dict: the last bind wins.
\<close>

definition bind :: "nat \<Rightarrow> 'r \<Rightarrow> 'r DiscordBot \<Rightarrow> 'r DiscordBot" where
  "bind mid handler self =
     self\<lparr>reaction_handlers := AList.update mid handler (reaction_handlers self)\<rparr>"

text \<open>How many handlers the registry holds for a message id.\<close>

definition handlers_bound :: "'r DiscordBot \<Rightarrow> nat \<Rightarrow> nat" where
  "handlers_bound self mid = length (filter (\<lambda>kv. fst kv = mid) (reaction_handlers self))"

lemma count_update:
  "length (filter (\<lambda>kv. fst kv = k') (AList.update k v al)) =
     (if k' = k \<and> k \<notin> set (map fst al) then 1
      else length (filter (\<lambda>kv. fst kv = k') al))"
proof (induction al)
  case Nil
  then show ?case by simp
next
  case (Cons p al)
  have "(k, b) \<in> set al \<Longrightarrow> k \<in> fst ` set al" for b
    by (rule image_eqI [of _ _ "(k, b)"]) simp_all
  with Cons show ?case
    by (cases p) (auto simp: filter_empty_conv)
qed

text \<open>
  Claim C7. The registry holds at most one handler per message id: it starts empty, and a
  bind keeps the bound at one. One policy covers a bind to an id that is already bound:
  the new handler replaces the old one (whether or not the id was bound, the handler
  looked up afterwards is the one just bound), every other id keeps its handler, and a
  reaction event on the message reaches the handler bound last and no other. The bind
  never fails, so this is the last-bind-wins policy and not the error the spec
  recommends.
\<close>

theorem one_handler_per_message:
  "handlers_bound (init login given_prefix :: 'r DiscordBot) mid = 0 \<and>
   ((\<forall>k. handlers_bound self k \<le> 1) \<longrightarrow>
      (\<forall>k. handlers_bound (bind mid handler self) k \<le> 1)) \<and>
   map_of (reaction_handlers (bind mid handler self)) mid = Some handler \<and>
   (other \<noteq> mid \<longrightarrow>
      map_of (reaction_handlers (bind mid handler self)) other =
        map_of (reaction_handlers self) other) \<and>
   (message_id (reaction_message reaction) = mid \<longrightarrow>
      on_reaction_change run_reaction (bind mid handler (bind mid earlier self)) action
        reaction user =
        ([(handler, action, reaction, user)],
         (case run_reaction handler action reaction user of
            None \<Rightarrow> Returned
          | Some e \<Rightarrow> Raised e)))"
proof (intro conjI impI allI)
  show "handlers_bound (init login given_prefix :: 'r DiscordBot) mid = 0"
    by (simp add: handlers_bound_def init_def)
next
  fix k
  assume "\<forall>k. handlers_bound self k \<le> 1"
  then have "handlers_bound self k \<le> 1" by blast
  then show "handlers_bound (bind mid handler self) k \<le> 1"
    by (simp add: handlers_bound_def bind_def count_update)
next
  show "map_of (reaction_handlers (bind mid handler self)) mid = Some handler"
    by (simp add: bind_def AList.update_conv')
next
  assume "other \<noteq> mid"
  then show "map_of (reaction_handlers (bind mid handler self)) other =
        map_of (reaction_handlers self) other"
    by (simp add: bind_def AList.update_conv')
next
  assume "message_id (reaction_message reaction) = mid"
  then show "on_reaction_change run_reaction (bind mid handler (bind mid earlier self)) action
        reaction user =
        ([(handler, action, reaction, user)],
         (case run_reaction handler action reaction user of
            None \<Rightarrow> Returned
          | Some e \<Rightarrow> Raised e))"
    by (simp add: on_reaction_change_def bind_def AList.update_conv')
qed


theorem one_handler_per_message_witness:
  "(\<forall>k. handlers_bound example_bot k \<le> 1) \<and>
   (\<forall>k. handlers_bound (bind 1001 ''poll'' example_bot) k \<le> 1) \<and>
   reaction_handlers (bind 1001 ''poll'' example_bot) = [(1001, ''poll'')] \<and>
   map_of (reaction_handlers (bind 1003 ''poll'' example_bot)) 1001 = Some ''rsvp'' \<and>
   message_id (reaction_message example_reaction) = 1001 \<and>
   on_reaction_change example_run_reaction (bind 1001 ''poll'' (bind 1001 ''rsvp'' example_bot))
     ADDED example_reaction 7 = ([(''poll'', ADDED, example_reaction, 7)], Returned)"
  using one_handler_per_message [where self = example_bot and mid = 1001
      and handler = "''poll''" and earlier = "''rsvp''" and other = 1003
      and reaction = example_reaction and run_reaction = example_run_reaction
      and action = ADDED and user = 7 and login = None and given_prefix = None]
    one_handler_per_message [where self = example_bot and mid = 1003
      and handler = "''poll''" and earlier = "''rsvp''" and other = 1001
      and reaction = example_reaction and run_reaction = example_run_reaction
      and action = ADDED and user = 7 and login = None and given_prefix = None]
  by (simp add: example_bot_def example_reaction_def example_message_def
      example_run_reaction_def bind_def handlers_bound_def on_reaction_change_def)

section \<open>The Matching Engine\<close>

text \<open>
  Modelled from the spec: the Matching Engine, \<open>match(spec, rawListings, seenIds)\<close>. Its
  code is not among the sources. The spec's algorithm: go through the raw listings in
  the order returned; compute the source-native identifier of each; drop a listing with no
  identifier and count it as skipped; skip a listing whose identifier is in \<open>seenIds\<close>;
  otherwise construct a Listing bound to \<open>spec\<close>, append it to the result and add the
  identifier to \<open>seenIds\<close>. The result is the novel listings, the seen-set as the run
  leaves it and the number of malformed items skipped.
\<close>

record SearchSpec =
  criteria :: "(string, string) dict"
  plugin_path :: string

record RawListing =
  sourceId :: "string option"
  attributes :: "(string, string) dict"

record Listing =
  source_id :: string
  listing_attributes :: "(string, string) dict"
  matched_under :: SearchSpec

fun match :: "SearchSpec \<Rightarrow> RawListing list \<Rightarrow> string set \<Rightarrow> Listing list \<times> string set \<times> nat" where
  "match spec [] seenIds = ([], seenIds, 0)"
| "match spec (raw # rest) seenIds =
     (case sourceId raw of
        None \<Rightarrow>
          (case match spec rest seenIds of
             (novel, seen', skipped) \<Rightarrow> (novel, seen', Suc skipped))
      | Some ident \<Rightarrow>
          if ident \<in> seenIds then match spec rest seenIds
          else
            (case match spec rest (insert ident seenIds) of
               (novel, seen', skipped) \<Rightarrow>
                 (\<lparr>source_id = ident, listing_attributes = attributes raw,
                    matched_under = spec\<rparr> # novel, seen', skipped)))"

subsection \<open>Example batch\<close>

definition couch_spec :: SearchSpec where
  "couch_spec =
     \<lparr>criteria = [(''query'', ''couch'')],
      plugin_path = ''plugins.craigslist.plugin:CraigslistPlugin''\<rparr>"

definition couch_batch :: "RawListing list" where
  "couch_batch =
     [\<lparr>sourceId = Some ''123'', attributes = [(''title'', ''Couch'')]\<rparr>,
      \<lparr>sourceId = None, attributes = [(''title'', ''No id'')]\<rparr>,
      \<lparr>sourceId = Some ''77'', attributes = [(''title'', ''Old couch'')]\<rparr>,
      \<lparr>sourceId = Some ''123'', attributes = [(''title'', ''Couch again'')]\<rparr>]"


subsection \<open>Properties of the engine\<close>

lemma match_skipped:
  "match spec raws seenIds = (novel, seen', skipped) \<Longrightarrow>
     skipped = length (filter (\<lambda>raw. sourceId raw = None) raws)"
  by (induction raws arbitrary: seenIds novel seen' skipped)
    (auto split: option.splits if_splits prod.splits)

lemma match_seen:
  "match spec raws seenIds = (novel, seen', skipped) \<Longrightarrow>
     seen' = seenIds \<union> {ident. Some ident \<in> sourceId ` set raws}"
proof (induction raws arbitrary: seenIds novel seen' skipped)
  case Nil
  then show ?case by simp
next
  case (Cons raw raws)
  show ?case
  proof (cases "sourceId raw")
    case None
    with Cons.prems obtain k where "match spec raws seenIds = (novel, seen', k)"
      by (auto split: prod.splits)
    from Cons.IH [OF this] None show ?thesis by auto
  next
    case (Some ident)
    show ?thesis
    proof (cases "ident \<in> seenIds")
      case True
      with Some Cons.prems have "match spec raws seenIds = (novel, seen', skipped)" by simp
      from Cons.IH [OF this] Some True show ?thesis by force
    next
      case False
      with Some Cons.prems obtain novel' where
        "match spec raws (insert ident seenIds) = (novel', seen', skipped)"
        by (auto split: prod.splits)
      from Cons.IH [OF this] Some show ?thesis by force
    qed
  qed
qed

lemma match_novel:
  "match spec raws seenIds = (novel, seen', skipped) \<Longrightarrow>
     (\<forall>l \<in> set novel. source_id l \<notin> seenIds \<and> matched_under l = spec) \<and>
     distinct (map source_id novel) \<and>
     seen' = seenIds \<union> set (map source_id novel)"
proof (induction raws arbitrary: seenIds novel seen' skipped)
  case Nil
  then show ?case by simp
next
  case (Cons raw raws)
  show ?case
  proof (cases "sourceId raw")
    case None
    with Cons.prems obtain k where "match spec raws seenIds = (novel, seen', k)"
      by (auto split: prod.splits)
    from Cons.IH [OF this] show ?thesis .
  next
    case (Some ident)
    show ?thesis
    proof (cases "ident \<in> seenIds")
      case True
      with Some Cons.prems have "match spec raws seenIds = (novel, seen', skipped)" by simp
      from Cons.IH [OF this] show ?thesis .
    next
      case False
      with Some Cons.prems obtain novel' where
        m: "match spec raws (insert ident seenIds) = (novel', seen', skipped)" and
        n: "novel = \<lparr>source_id = ident, listing_attributes = attributes raw,
                    matched_under = spec\<rparr> # novel'"
        by (auto split: prod.splits)
      from Cons.IH [OF m] n False show ?thesis by auto
    qed
  qed
qed

lemma match_all_seen:
  "\<forall>raw \<in> set raws. \<forall>ident. sourceId raw = Some ident \<longrightarrow> ident \<in> seenIds \<Longrightarrow>
     match spec raws seenIds =
       ([], seenIds, length (filter (\<lambda>raw. sourceId raw = None) raws))"
  by (induction raws) (auto split: option.splits)

text \<open>
  Claim C1. For every search specification, raw batch and seen-set: when a run of the
  engine yields the novel listings and leaves the seen-set \<open>seen'\<close>, a second run on the
  same batch with the seen-set as the first run left it yields no listing, leaves the
  seen-set as it is and skips the same malformed items. No listing of the first run has
  an identifier that was in the seen-set it started from, each is bound to the spec, no
  identifier is emitted twice, and the seen-set grows by exactly the identifiers emitted.
\<close>

theorem match_idempotent:
  "match spec raws seenIds = (novel, seen', skipped) \<longrightarrow>
     match spec raws seen' = ([], seen', skipped) \<and>
     (\<forall>l \<in> set novel. source_id l \<notin> seenIds \<and> matched_under l = spec) \<and>
     distinct (map source_id novel) \<and>
     seen' = seenIds \<union> set (map source_id novel)"
proof
  assume a: "match spec raws seenIds = (novel, seen', skipped)"
  then have "seen' = seenIds \<union> {ident. Some ident \<in> sourceId ` set raws}"
    by (rule match_seen)
  then have "\<forall>raw \<in> set raws. \<forall>ident. sourceId raw = Some ident \<longrightarrow> ident \<in> seen'"
    by (auto intro: rev_image_eqI)
  then have "match spec raws seen' =
      ([], seen', length (filter (\<lambda>raw. sourceId raw = None) raws))"
    by (rule match_all_seen)
  with match_skipped [OF a] have "match spec raws seen' = ([], seen', skipped)"
    by simp
  with match_novel [OF a] show "match spec raws seen' = ([], seen', skipped) \<and>
     (\<forall>l \<in> set novel. source_id l \<notin> seenIds \<and> matched_under l = spec) \<and>
     distinct (map source_id novel) \<and>
     seen' = seenIds \<union> set (map source_id novel)"
    by simp
qed

theorem match_idempotent_witness:
  "match couch_spec couch_batch {''77''} =
     ([\<lparr>source_id = ''123'', listing_attributes = [(''title'', ''Couch'')],
         matched_under = couch_spec\<rparr>], {''123'', ''77''}, 1) \<and>
   match couch_spec couch_batch {''123'', ''77''} = ([], {''123'', ''77''}, 1)"
proof -
  have 1: "match couch_spec couch_batch {''77''} =
     ([\<lparr>source_id = ''123'', listing_attributes = [(''title'', ''Couch'')],
         matched_under = couch_spec\<rparr>], {''123'', ''77''}, 1)"
    by (simp add: couch_batch_def)
  from match_idempotent [of couch_spec couch_batch "{''77''}"
      "[\<lparr>source_id = ''123'', listing_attributes = [(''title'', ''Couch'')],
          matched_under = couch_spec\<rparr>]" "{''123'', ''77''}" 1] 1
  show ?thesis by simp
qed

end
